theory Spec2Isabelle
  imports Main "HOL-Library.Word"
begin

section \<open>Chain restore: the RLP block stream and the import loop\<close>

text \<open>
  The restore package reads RLP-encoded blocks from a file and writes to the chain the
  blocks the chain does not hold yet. Its collaborators are interfaces or types of
  other packages, so they are parameters of the model:
  \<^item> \<open>types.Block\<close> with \<open>UnmarshalRLP\<close>, \<open>Number\<close> and \<open>Hash\<close>: the record \<open>blockOps\<close>
    over a type \<open>'b\<close> of blocks;
  \<^item> \<open>blockchainInterface\<close>: a record of functions over a chain state \<open>'c\<close>;
  \<^item> the termination-signal channel: the list of answers the non-blocking \<open>select\<close>
    gets, one per poll (\<open>True\<close>: a signal was waiting); an exhausted list means that
    no signal arrives any more;
  \<^item> the \<open>io.Reader\<close>: the unread rest of a regular file, as \<open>ImportChain\<close> passes an
    opened file.
\<close>

type_synonym byte = "8 word"

type_synonym hash = "256 word"

datatype error =
    EOF
  | ErrExpectedArray
  | ErrGenesisMismatch hash hash
  | ErrExternal string

text \<open>
  A Go call either returns or panics. \<open>Ok\<close> and \<open>Err\<close> are the two shapes of a returned
  \<open>(value, error)\<close> pair; \<open>Panic\<close> is a run-time panic (a slice expression out of range).
\<close>

datatype 'a result = Ok 'a | Err error | Panic

record 'b blockOps =
  UnmarshalRLP :: "byte list \<Rightarrow> 'b result"
  Number :: "'b \<Rightarrow> 64 word"
  Hash :: "'b \<Rightarrow> hash"

record ('c, 'b) blockchainInterface =
  Genesis :: "'c \<Rightarrow> hash"
  GetHashByNumber :: "'c \<Rightarrow> 64 word \<Rightarrow> hash"
  WriteBlocks :: "'c \<Rightarrow> 'b list \<Rightarrow> error option \<times> 'c"


text \<open>
  \<open>input\<close> is what the reader has not delivered yet. \<open>buffer\<close> is the backing array of the
  Go slice up to its capacity: the code only ever reslices it from index 0 or from an
  offset, so the slice's own length plays no role, and the bytes of earlier reads stay
  in place.
\<close>

record blockStream =
  input :: "byte list"
  buffer :: "byte list"

definition newBlockStream :: "byte list \<Rightarrow> blockStream" where
  "newBlockStream inp = \<lparr>input = inp, buffer = replicate 1024 0\<rparr>"

text \<open>Go's \<open>int64\<close> arithmetic on mathematical integers: the result wraps around.\<close>

definition int64 :: "int \<Rightarrow> int" where
  "int64 x = sint (word_of_int x :: 64 word)"

text \<open>
  A slice expression \<open>b.buffer[lo:hi]\<close> panics unless \<open>0 \<le> lo \<le> hi \<le> cap(b.buffer)\<close>.
\<close>

definition sliceInRange :: "blockStream \<Rightarrow> int \<Rightarrow> int \<Rightarrow> bool" where
  "sliceInRange b lo hi \<longleftrightarrow> 0 \<le> lo \<and> lo \<le> hi \<and> hi \<le> int (length (buffer b))"

text \<open>
  \<open>b.input.Read(b.buffer[lo:hi])\<close> on a file: a read into an empty slice returns at once
  without error; at the end of the file the error is \<open>io.EOF\<close>; otherwise the bytes
  that are left, at most \<open>hi - lo\<close> of them, are copied to the buffer from \<open>lo\<close> on. The
  code drops the count of bytes read, and so does the model.
\<close>

definition Read :: "blockStream \<Rightarrow> nat \<Rightarrow> nat \<Rightarrow> error option \<times> blockStream" where
  "Read b lo hi =
     (if hi - lo = 0 then (None, b)
      else if input b = [] then (Some EOF, b)
      else let got = take (hi - lo) (input b)
           in (None, b\<lparr>input := drop (hi - lo) (input b),
                       buffer := take lo (buffer b) @ got @ drop (lo + length got) (buffer b)\<rparr>))"

text \<open>
  \<open>reserveCap\<close> appends \<open>size\<close> zero bytes to the full backing array when \<open>size\<close> exceeds
  the capacity. The Go runtime may round the new capacity up; the extra bytes would be
  zero as well and no slice expression of this code reaches them before a later
  \<open>reserveCap\<close> has asked for them, so the capacity is taken to be the new length.
  The allocation is taken to succeed, whatever the size.
\<close>

definition reserveCap :: "blockStream \<Rightarrow> int \<Rightarrow> blockStream" where
  "reserveCap b sz =
     (if sz > int (length (buffer b))
      then b\<lparr>buffer := buffer b @ replicate (nat sz) 0\<rparr>
      else b)"

definition loadRLPPrefix :: "blockStream \<Rightarrow> byte result \<times> blockStream" where
  "loadRLPPrefix b =
     (if \<not> sliceInRange b 0 1 then (Panic, b)
      else case Read b 0 1 of
             (Some err, b') \<Rightarrow> (Err err, b')
           | (None, b') \<Rightarrow> (Ok (buffer b' ! 0), b'))"

text \<open>\<open>new(big.Int).SetBytes(bs).Int64()\<close>: the big-endian value, cut to 64 bits.\<close>

definition bytesToInt64 :: "byte list \<Rightarrow> int" where
  "bytesToInt64 bs = int64 (foldl (\<lambda>acc x. acc * 256 + uint x) 0 bs)"

definition loadPrefixSize :: "blockStream \<Rightarrow> int \<Rightarrow> byte \<Rightarrow> (int \<times> int) result \<times> blockStream" where
  "loadPrefixSize b offset prefix =
     (if 0xc0 \<le> prefix \<and> prefix \<le> 0xf7 then (Ok (uint (prefix - 0xc0), 0), b)
      else if 0xf8 \<le> prefix then
        (let payloadSizeSize = uint (prefix - 0xf7);
             hi = int64 (offset + payloadSizeSize);
             b1 = reserveCap b hi
         in if \<not> sliceInRange b1 offset hi then (Panic, b1)
            else case Read b1 (nat offset) (nat hi) of
                   (Some err, b2) \<Rightarrow> (Err err, b2)
                 | (None, b2) \<Rightarrow>
                     (Ok (bytesToInt64 (take (nat hi - nat offset) (drop (nat offset) (buffer b2))),
                          payloadSizeSize), b2))
      else (Err ErrExpectedArray, b))"

definition loadPayload :: "blockStream \<Rightarrow> int \<Rightarrow> int \<Rightarrow> unit result \<times> blockStream" where
  "loadPayload b offset sz =
     (let hi = int64 (offset + sz);
          b1 = reserveCap b hi
      in if \<not> sliceInRange b1 offset hi then (Panic, b1)
         else case Read b1 (nat offset) (nat hi) of
                (Some err, b2) \<Rightarrow> (Err err, b2)
              | (None, b2) \<Rightarrow> (Ok (), b2))"

definition parseBlock :: "'b blockOps \<Rightarrow> blockStream \<Rightarrow> int \<Rightarrow> 'b option result \<times> blockStream" where
  "parseBlock ops b sz =
     (if \<not> sliceInRange b 0 sz then (Panic, b)
      else case UnmarshalRLP ops (take (nat sz) (buffer b)) of
             Ok block \<Rightarrow> (Ok (Some block), b)
           | Err err \<Rightarrow> (Err err, b)
           | Panic \<Rightarrow> (Panic, b))"

definition nextBlock :: "'b blockOps \<Rightarrow> blockStream \<Rightarrow> 'b option result \<times> blockStream" where
  "nextBlock ops b =
     (case loadRLPPrefix b of
        (Panic, b1) \<Rightarrow> (Panic, b1)
      | (Err err, b1) \<Rightarrow> if err = EOF then (Ok None, b1) else (Err err, b1)
      | (Ok prefix, b1) \<Rightarrow>
          (case loadPrefixSize b1 1 prefix of
             (Panic, b2) \<Rightarrow> (Panic, b2)
           | (Err err, b2) \<Rightarrow> (Err err, b2)
           | (Ok (payloadSize, payloadSizeSize), b2) \<Rightarrow>
               (case loadPayload b2 (int64 (1 + payloadSizeSize)) payloadSize of
                  (Panic, b3) \<Rightarrow> (Panic, b3)
                | (Err err, b3) \<Rightarrow> (Err err, b3)
                | (Ok u, b3) \<Rightarrow>
                    parseBlock ops b3 (int64 (int64 (1 + payloadSizeSize) + payloadSize)))))"

fun poll :: "bool list \<Rightarrow> bool \<times> bool list" where
  "poll [] = (False, [])"
| "poll (s # rest) = (s, rest)"

lemma Read_input_le: "Read b lo hi = (r, b') \<Longrightarrow> length (input b') \<le> length (input b)"
  by (auto simp: Read_def Let_def split: if_splits)

lemma loadRLPPrefix_Ok_lt:
  "loadRLPPrefix b = (Ok p, b') \<Longrightarrow> length (input b') < length (input b)"
  by (auto simp: loadRLPPrefix_def Read_def Let_def split: if_splits)


lemma reserveCap_input [simp]: "input (reserveCap b n) = input b"
  by (simp add: reserveCap_def)

lemma loadPrefixSize_input_le:
  "loadPrefixSize b off p = (r, b') \<Longrightarrow> length (input b') \<le> length (input b)"
  by (auto simp: loadPrefixSize_def Let_def split: if_splits prod.splits option.splits
           dest!: Read_input_le)

lemma loadPayload_input_le:
  "loadPayload b off n = (r, b') \<Longrightarrow> length (input b') \<le> length (input b)"
  by (auto simp: loadPayload_def Let_def split: if_splits prod.splits option.splits
           dest!: Read_input_le)

lemma parseBlock_input:
  "parseBlock ops b n = (r, b') \<Longrightarrow> b' = b"
  by (auto simp: parseBlock_def split: if_splits result.splits)


lemma nextBlock_Some_lt:
  "nextBlock ops b = (Ok (Some block), b') \<Longrightarrow> length (input b') < length (input b)"
  by (auto simp: nextBlock_def split: prod.splits result.splits if_splits
           dest!: loadRLPPrefix_Ok_lt loadPrefixSize_input_le loadPayload_input_le
                  parseBlock_input)

text \<open>
  \<open>consumeCommonBlocks\<close> reads blocks until one differs from the chain. The result
  carries the stream and the signal answers that are left, for the import loop.
\<close>

function consumeCommonBlocks ::
  "'b blockOps \<Rightarrow> ('c, 'b) blockchainInterface \<Rightarrow> 'c \<Rightarrow> blockStream \<Rightarrow> bool list
     \<Rightarrow> 'b option result \<times> blockStream \<times> bool list" where
  "consumeCommonBlocks ops chain c b sigs =
     (case nextBlock ops b of
        (Panic, b') \<Rightarrow> (Panic, b', sigs)
      | (Err err, b') \<Rightarrow> (Err err, b', sigs)
      | (Ok None, b') \<Rightarrow> (Ok None, b', sigs)
      | (Ok (Some block), b') \<Rightarrow>
          if Number ops block = 0 then
            (if Hash ops block \<noteq> Genesis chain c
             then (Err (ErrGenesisMismatch (Hash ops block) (Genesis chain c)), b', sigs)
             else consumeCommonBlocks ops chain c b' sigs)
          else if GetHashByNumber chain c (Number ops block) \<noteq> Hash ops block
          then (Ok (Some block), b', sigs)
          else (case poll sigs of
                  (True, sigs') \<Rightarrow> (Ok None, b', sigs')
                | (False, sigs') \<Rightarrow> consumeCommonBlocks ops chain c b' sigs'))"
  by pat_completeness auto
termination
  by (relation "measure (\<lambda>(ops, chain, c, b, sigs). length (input b))")
     (auto dest: nextBlock_Some_lt [OF sym])


declare consumeCommonBlocks.simps [simp del]






subsection \<open>The blocks of a stream\<close>

text \<open>
  \<open>blocksOf\<close> is the sequence of blocks that successive calls of \<open>nextBlock\<close> deliver,
  with the outcome of the call that ends it: \<open>Ok None\<close> at the end of the file, an error
  or a panic otherwise.
\<close>

function blocksOf :: "'b blockOps \<Rightarrow> blockStream \<Rightarrow> 'b list \<times> 'b option result" where
  "blocksOf ops b =
     (case nextBlock ops b of
        (Panic, b') \<Rightarrow> ([], Panic)
      | (Err err, b') \<Rightarrow> ([], Err err)
      | (Ok None, b') \<Rightarrow> ([], Ok None)
      | (Ok (Some block), b') \<Rightarrow> (block # fst (blocksOf ops b'), snd (blocksOf ops b')))"
  by pat_completeness auto
termination
  by (relation "measure (\<lambda>(ops, b). length (input b))")
     (auto dest: nextBlock_Some_lt [OF sym])

declare blocksOf.simps [simp del]

text \<open>
  A block is common to the stream and the chain when the chain holds its hash: the
  genesis hash for block 0, the hash at the block's number otherwise.
\<close>

definition common :: "'b blockOps \<Rightarrow> ('c, 'b) blockchainInterface \<Rightarrow> 'c \<Rightarrow> 'b \<Rightarrow> bool" where
  "common ops chain c block =
     (if Number ops block = 0 then Hash ops block = Genesis chain c
      else GetHashByNumber chain c (Number ops block) = Hash ops block)"

text \<open>
  The result of \<open>consumeCommonBlocks\<close> in terms of the blocks of the stream. The signal
  channel is polled once after each skipped block other than block 0; a signal found
  there ends the scan with \<open>(nil, nil)\<close>.
\<close>

definition firstToImport ::
  "'b blockOps \<Rightarrow> ('c, 'b) blockchainInterface \<Rightarrow> 'c \<Rightarrow> 'b list \<Rightarrow> 'b option result \<Rightarrow> bool list
     \<Rightarrow> 'b option result" where
  "firstToImport ops chain c blocks terminal sigs =
     (let skipped = takeWhile (common ops chain c) blocks;
          polls = length (filter (\<lambda>block. Number ops block \<noteq> 0) skipped)
      in if True \<in> set (take polls sigs) then Ok None
         else case dropWhile (common ops chain c) blocks of
                [] \<Rightarrow> terminal
              | block # later \<Rightarrow>
                  if Number ops block = 0
                  then Err (ErrGenesisMismatch (Hash ops block) (Genesis chain c))
                  else Ok (Some block))"



subsection \<open>A sample instance\<close>

text \<open>
  A small instance of the parameters, to run the model on concrete files: a block is
  encoded as an RLP list of two single bytes, its number and its hash; the chain is
  the list of the hashes it holds, by block number.
\<close>

definition sampleOps :: "(byte \<times> byte) blockOps" where
  "sampleOps =
     \<lparr>UnmarshalRLP = (\<lambda>data. case data of
                                [p, n, h] \<Rightarrow> if p = 0xc2 then Ok (n, h) else Err (ErrExternal ''rlp'')
                              | _ \<Rightarrow> Err (ErrExternal ''rlp'')),
      Number = (\<lambda>block. ucast (fst block)),
      Hash = (\<lambda>block. ucast (snd block))\<rparr>"

definition sampleChain :: "(hash list, byte \<times> byte) blockchainInterface" where
  "sampleChain =
     \<lparr>Genesis = (\<lambda>c. case c of [] \<Rightarrow> 0 | h # hs \<Rightarrow> h),
      GetHashByNumber = (\<lambda>c n. if unat n < length c then c ! unat n else 0),
      WriteBlocks = (\<lambda>c blocks. (None, c @ map (\<lambda>block. ucast (snd block)) blocks))\<rparr>"

subsection \<open>Reading one block\<close>

lemma loadRLPPrefix_eof:
  "buffer b \<noteq> [] \<Longrightarrow> input b = [] \<Longrightarrow> loadRLPPrefix b = (Err EOF, b)"
  by (simp add: loadRLPPrefix_def sliceInRange_def Read_def Suc_le_eq)

lemma loadRLPPrefix_byte:
  "buffer b \<noteq> [] \<Longrightarrow> input b = p # rest \<Longrightarrow>
     loadRLPPrefix b = (Ok p, b\<lparr>input := rest, buffer := p # tl (buffer b)\<rparr>)"
  by (cases "buffer b") (simp_all add: loadRLPPrefix_def sliceInRange_def Read_def Let_def)

lemma below_c0: "(p :: byte) < 0xc0 \<Longrightarrow> \<not> 0xc0 \<le> p \<and> \<not> 0xf8 \<le> p"
  by (simp add: word_less_nat_alt word_le_nat_alt)

lemma loadPrefixSize_not_array:
  "p < 0xc0 \<Longrightarrow> loadPrefixSize b off p = (Err ErrExpectedArray, b)"
  using below_c0 [of p] by (simp add: loadPrefixSize_def)

text \<open>
  Claim C9. On a stream whose buffer has room for the prefix byte (every stream of
  \<open>newBlockStream\<close> has 1024 bytes), \<open>nextBlock\<close> returns \<open>(nil, nil)\<close> and leaves the
  stream as it is when the file is at its end before any prefix byte, and it returns
  the error \<open>expected array\<close>, never a block, when the first byte is below \<open>0xc0\<close>.
\<close>

theorem nextBlock_eof_or_not_array:
  assumes "buffer b \<noteq> []"
  shows "(input b = [] \<longrightarrow> nextBlock ops b = (Ok None, b)) \<and>
         (\<forall>prefix rest. input b = prefix # rest \<and> prefix < 0xc0 \<longrightarrow>
            fst (nextBlock ops b) = Err ErrExpectedArray)"
proof (intro conjI allI impI)
  assume "input b = []"
  with assms show "nextBlock ops b = (Ok None, b)"
    by (simp add: nextBlock_def loadRLPPrefix_eof)
next
  fix prefix rest
  assume h: "input b = prefix # rest \<and> prefix < 0xc0"
  then show "fst (nextBlock ops b) = Err ErrExpectedArray"
    using assms by (simp add: nextBlock_def loadRLPPrefix_byte loadPrefixSize_not_array)
qed

theorem nextBlock_eof_or_not_array_witness:
  "nextBlock sampleOps (newBlockStream []) = (Ok None, newBlockStream []) \<and>
   fst (nextBlock sampleOps (newBlockStream [0xbf, 1, 7])) = Err ErrExpectedArray"
  using nextBlock_eof_or_not_array [of "newBlockStream []" sampleOps]
        nextBlock_eof_or_not_array [of "newBlockStream [0xbf, 1, 7]" sampleOps]
  by (simp add: newBlockStream_def)

subsection \<open>Skipping the common blocks\<close>

lemma poll_cases: "poll sigs = (s, sigs') \<Longrightarrow> (sigs = [] \<and> \<not> s \<and> sigs' = []) \<or> sigs = s # sigs'"
  by (cases sigs) auto

lemma consumeCommonBlocks_blocksOf:
  "fst (consumeCommonBlocks ops chain c b sigs) = firstToImport ops chain c (fst (blocksOf ops b)) (snd (blocksOf ops b)) sigs"
proof (induction ops chain c b sigs rule: consumeCommonBlocks.induct)
  case (1 ops chain c b sigs)
  obtain r b1 where nb: "nextBlock ops b = (r, b1)" by (cases "nextBlock ops b")
  show ?case
  proof (cases r)
    case Panic
    with nb show ?thesis
      by (simp add: consumeCommonBlocks.simps [of ops chain c b sigs] blocksOf.simps [of ops b]
                    firstToImport_def)
  next
    case (Err e)
    with nb show ?thesis
      by (simp add: consumeCommonBlocks.simps [of ops chain c b sigs] blocksOf.simps [of ops b]
                    firstToImport_def)
  next
    case (Ok o1)
    show ?thesis
    proof (cases o1)
      case None
      with nb Ok show ?thesis
        by (simp add: consumeCommonBlocks.simps [of ops chain c b sigs] blocksOf.simps [of ops b]
                      firstToImport_def)
    next
      case (Some block)
      have bo: "blocksOf ops b = (block # fst (blocksOf ops b1), snd (blocksOf ops b1))"
        using nb Ok Some by (simp add: blocksOf.simps [of ops b])
      show ?thesis
      proof (cases "Number ops block = 0")
        case True
        show ?thesis
        proof (cases "Hash ops block = Genesis chain c")
          case False
          with True nb Ok Some bo show ?thesis
            by (simp add: consumeCommonBlocks.simps [of ops chain c b sigs] firstToImport_def
                          common_def)
        next
          case h: True
          have "fst (consumeCommonBlocks ops chain c b sigs) = fst (consumeCommonBlocks ops chain c b1 sigs)"
            using True h nb Ok Some by (simp add: consumeCommonBlocks.simps [of ops chain c b sigs])
          also have "\<dots> = firstToImport ops chain c (fst (blocksOf ops b1)) (snd (blocksOf ops b1)) sigs"
            using "1.IH"(1) [OF nb [symmetric] Ok Some True] h by simp
          also have "\<dots> = firstToImport ops chain c (fst (blocksOf ops b)) (snd (blocksOf ops b)) sigs"
            using True h bo by (simp add: firstToImport_def common_def Let_def)
          finally show ?thesis .
        qed
      next
        case nz: False
        show ?thesis
        proof (cases "GetHashByNumber chain c (Number ops block) = Hash ops block")
          case False
          with nz nb Ok Some bo show ?thesis
            by (simp add: consumeCommonBlocks.simps [of ops chain c b sigs] firstToImport_def
                          common_def)
        next
          case h: True
          obtain s sigs' where po: "poll sigs = (s, sigs')" by (cases "poll sigs")
          show ?thesis
          proof (cases s)
            case True
            with po have sg: "sigs = True # sigs'" by (auto dest: poll_cases)
            have "fst (consumeCommonBlocks ops chain c b sigs) = Ok None"
              using nz h nb Ok Some po True
              by (simp add: consumeCommonBlocks.simps [of ops chain c b sigs])
            moreover have "firstToImport ops chain c (fst (blocksOf ops b)) (snd (blocksOf ops b)) sigs = Ok None"
              using nz h bo sg by (simp add: firstToImport_def common_def Let_def)
            ultimately show ?thesis by simp
          next
            case False
            have "fst (consumeCommonBlocks ops chain c b sigs) = fst (consumeCommonBlocks ops chain c b1 sigs')"
              using nz h nb Ok Some po False
              by (simp add: consumeCommonBlocks.simps [of ops chain c b sigs])
            also have "\<dots> = firstToImport ops chain c (fst (blocksOf ops b1)) (snd (blocksOf ops b1)) sigs'"
              using "1.IH"(2) [OF nb [symmetric] Ok Some nz _ po [symmetric]] h False by simp
            also have "\<dots> = firstToImport ops chain c (fst (blocksOf ops b)) (snd (blocksOf ops b)) sigs"
              using poll_cases [OF po] False nz h bo
              by (auto simp: firstToImport_def common_def Let_def)
            finally show ?thesis .
          qed
        qed
      qed
    qed
  qed
qed

text \<open>
  Claim C8, as the code has it. \<open>consumeCommonBlocks\<close> skips the blocks of the stream
  that the chain holds (block 0 with the genesis hash, any other block with the hash
  the chain has at its number). After each skipped block other than block 0 it polls
  the termination signal, and a signal found there ends the scan with \<open>(nil, nil)\<close>.
  Otherwise the first block that is not common decides: it is an error when that block
  is block 0 (its hash is not the genesis hash), and the block is returned when it has
  another number. When every block of the stream is common, the result is the outcome
  of the call of \<open>nextBlock\<close> that ended the stream: \<open>(nil, nil)\<close> at the end of the
  file, the error of \<open>nextBlock\<close> when the rest of the file does not decode.
\<close>

theorem consumeCommonBlocks_first_differing:
  "fst (consumeCommonBlocks ops chain c b sigs) =
     (let blocks = fst (blocksOf ops b);
          skipped = takeWhile (common ops chain c) blocks;
          polls = length (filter (\<lambda>block. Number ops block \<noteq> 0) skipped)
      in if True \<in> set (take polls sigs) then Ok None
         else case dropWhile (common ops chain c) blocks of
                [] \<Rightarrow> snd (blocksOf ops b)
              | block # later \<Rightarrow>
                  if Number ops block = 0
                  then Err (ErrGenesisMismatch (Hash ops block) (Genesis chain c))
                  else Ok (Some block))"
  by (simp add: consumeCommonBlocks_blocksOf firstToImport_def)

text \<open>
  The claim as the specification words it leaves two results out. First file: one
  block, which the chain holds, then a byte that is no RLP list; no block 0 with a
  wrong hash is met, and the result is an error. Second file: a common block, then a
  block that differs from the chain, with a termination signal waiting; the result is
  \<open>(nil, nil)\<close> although the stream holds a block that differs.
\<close>

theorem consumeCommonBlocks_counterexample:
  "blocksOf sampleOps (newBlockStream [0xc2, 1, 7, 0x00]) = ([(1, 7)], Err ErrExpectedArray) \<and>
   common sampleOps sampleChain [5, 7] (1, 7) \<and>
   fst (consumeCommonBlocks sampleOps sampleChain [5, 7] (newBlockStream [0xc2, 1, 7, 0x00]) [])
     = Err ErrExpectedArray \<and>
   blocksOf sampleOps (newBlockStream [0xc2, 1, 7, 0xc2, 2, 9]) = ([(1, 7), (2, 9)], Ok None) \<and>
   \<not> common sampleOps sampleChain [5, 7] (2, 9) \<and>
   fst (consumeCommonBlocks sampleOps sampleChain [5, 7] (newBlockStream [0xc2, 1, 7, 0xc2, 2, 9]) [True])
     = Ok None"
  by code_simp

subsection \<open>Importing in chunks\<close>








section \<open>Peer-to-peer networking\<close>

text \<open>
  The sources hold the tests of the network package only; the event bus itself is not
  among them. Its model below follows the specification, and says which part of it.
\<close>

type_synonym identity = "256 word"

datatype eventKind =
  Connected | Disconnected | FailedToConnect | AlreadyConnected | DialCompleted | AddedToDialQueue

type_synonym peerEvent = "identity \<times> eventKind"

subsection \<open>Peer event bus\<close>

text \<open>
  Modelled from the spec: the event bus is missing from the sources. Every subscriber
  has a queue of its own (decoupled fan-out, not one shared queue). A subscription is
  named by its position in the bus.
\<close>

record subscription =
  queue :: "peerEvent list"
  closed :: bool

type_synonym eventBus = "subscription list"

text \<open>Modelled from the spec: \<open>Subscribe\<close> opens a subscription with an empty queue.\<close>

definition Subscribe :: "eventBus \<Rightarrow> nat \<times> eventBus" where
  "Subscribe bus = (length bus, bus @ [\<lparr>queue = [], closed = False\<rparr>])"

text \<open>
  Modelled from the spec: \<open>Emit\<close> does not block and loses no event for a subscription
  that is not closed: one broadcast step appends the event to every open queue.
\<close>

definition Emit :: "peerEvent \<Rightarrow> eventBus \<Rightarrow> eventBus" where
  "Emit e bus = map (\<lambda>s. if closed s then s else s\<lparr>queue := queue s @ [e]\<rparr>) bus"

text \<open>
  Modelled from the spec: \<open>Next\<close> gives the oldest unread event; on an empty queue it
  blocks until an event is available (\<open>Blocked\<close>, the bus unchanged); on a closed
  subscription it signals the end of the stream.
\<close>

datatype nextResult = Event peerEvent | EndOfStream | Blocked

definition Next :: "nat \<Rightarrow> eventBus \<Rightarrow> nextResult \<times> eventBus" where
  "Next sub bus =
     (if length bus \<le> sub \<or> closed (bus ! sub) then (EndOfStream, bus)
      else case queue (bus ! sub) of
             [] \<Rightarrow> (Blocked, bus)
           | e # rest \<Rightarrow> (Event e, bus[sub := (bus ! sub)\<lparr>queue := rest\<rparr>]))"

text \<open>Modelled from the spec: closing a subscription releases its queue.\<close>

definition Close :: "nat \<Rightarrow> eventBus \<Rightarrow> eventBus" where
  "Close sub bus = (if sub < length bus then bus[sub := \<lparr>queue = [], closed = True\<rparr>] else bus)"

text \<open>
  The two ways of the test: all events emitted, then read (\<open>emitAll\<close>, \<open>readN\<close>), and
  each event read right after it is emitted (\<open>emitAndRead\<close>).
\<close>

fun emitAll :: "peerEvent list \<Rightarrow> eventBus \<Rightarrow> eventBus" where
  "emitAll [] bus = bus"
| "emitAll (e # es) bus = emitAll es (Emit e bus)"

fun readN :: "nat \<Rightarrow> nat \<Rightarrow> eventBus \<Rightarrow> nextResult list \<times> eventBus" where
  "readN sub 0 bus = ([], bus)"
| "readN sub (Suc n) bus =
     (case Next sub bus of (r, bus') \<Rightarrow> (case readN sub n bus' of (rs, bus'') \<Rightarrow> (r # rs, bus'')))"

fun emitAndRead :: "nat \<Rightarrow> peerEvent list \<Rightarrow> eventBus \<Rightarrow> nextResult list \<times> eventBus" where
  "emitAndRead sub [] bus = ([], bus)"
| "emitAndRead sub (e # es) bus =
     (case Next sub (Emit e bus) of
        (r, bus') \<Rightarrow> (case emitAndRead sub es bus' of (rs, bus'') \<Rightarrow> (r # rs, bus'')))"

text \<open>The subscription is open and \<open>q\<close> are its unread events.\<close>

definition openWith :: "eventBus \<Rightarrow> nat \<Rightarrow> peerEvent list \<Rightarrow> bool" where
  "openWith bus sub q \<longleftrightarrow> sub < length bus \<and> \<not> closed (bus ! sub) \<and> queue (bus ! sub) = q"

lemma Emit_openWith: "openWith bus sub q \<Longrightarrow> openWith (Emit e bus) sub (q @ [e])"
  by (simp add: openWith_def Emit_def)

lemma emitAll_openWith: "openWith bus sub q \<Longrightarrow> openWith (emitAll es bus) sub (q @ es)"
proof (induction es arbitrary: bus q)
  case Nil
  then show ?case by simp
next
  case (Cons e es)
  from Cons.IH [OF Emit_openWith [OF Cons.prems]] show ?case by simp
qed

lemma Next_openWith:
  "openWith bus sub (e # q) \<Longrightarrow> fst (Next sub bus) = Event e \<and> openWith (snd (Next sub bus)) sub q"
  by (simp add: openWith_def Next_def)

lemma readN_openWith:
  "openWith bus sub (q @ rest) \<Longrightarrow>
     fst (readN sub (length q) bus) = map Event q \<and> openWith (snd (readN sub (length q) bus)) sub rest"
proof (induction q arbitrary: bus)
  case Nil
  then show ?case by simp
next
  case (Cons e q)
  from Cons.prems have "openWith bus sub (e # (q @ rest))" by simp
  from Next_openWith [OF this] Cons.IH [of "snd (Next sub bus)"]
  show ?case by (simp add: split_beta)
qed

lemma emitAndRead_openWith:
  "openWith bus sub [] \<Longrightarrow>
     fst (emitAndRead sub es bus) = map Event es \<and> openWith (snd (emitAndRead sub es bus)) sub []"
proof (induction es arbitrary: bus)
  case Nil
  then show ?case by simp
next
  case (Cons e es)
  from Emit_openWith [OF Cons.prems, of e] have "openWith (Emit e bus) sub [e]" by simp
  from Next_openWith [OF this] Cons.IH [of "snd (Next sub (Emit e bus))"]
  show ?case by (simp add: split_beta)
qed

text \<open>
  Claim C5. For every sequence of events and every open subscription with no unread
  event, reading yields exactly the emitted sequence, in emission order, both when
  each event is read right after it is emitted and when all are emitted before the
  first read.
\<close>

theorem events_read_in_emission_order:
  assumes "sub < length bus" and "\<not> closed (bus ! sub)" and "queue (bus ! sub) = []"
  shows "fst (emitAndRead sub es bus) = map Event es \<and>
         fst (readN sub (length es) (emitAll es bus)) = map Event es"
proof -
  from assms have start: "openWith bus sub []" by (simp add: openWith_def)
  from emitAll_openWith [OF start, of es] have "openWith (emitAll es bus) sub (es @ [])" by simp
  from readN_openWith [OF this] emitAndRead_openWith [OF start, of es]
  show ?thesis by simp
qed

theorem events_read_in_emission_order_witness:
  "fst (emitAndRead 0 [(1, Connected), (2, FailedToConnect), (3, Disconnected)] (snd (Subscribe [])))
     = [Event (1, Connected), Event (2, FailedToConnect), Event (3, Disconnected)] \<and>
   fst (readN 0 3 (emitAll [(1, Connected), (2, FailedToConnect), (3, Disconnected)] (snd (Subscribe []))))
     = [Event (1, Connected), Event (2, FailedToConnect), Event (3, Disconnected)]"
proof -
  have sub: "0 < length (snd (Subscribe []))" "\<not> closed (snd (Subscribe []) ! 0)"
    "queue (snd (Subscribe []) ! 0) = []"
    by (simp_all add: Subscribe_def)
  have len: "length [(1 :: identity, Connected), (2, FailedToConnect), (3, Disconnected)] = 3"
    by simp
  have evs: "map Event [(1, Connected), (2, FailedToConnect), (3, Disconnected)]
               = [Event (1, Connected), Event (2, FailedToConnect), Event (3, Disconnected)]"
    by simp
  from events_read_in_emission_order
         [OF sub, of "[(1, Connected), (2, FailedToConnect), (3, Disconnected)]"]
  show ?thesis unfolding len evs .
qed

end
